theory Spec2Isabelle
  imports Main "HOL-Library.Word" "HOL-Library.Multiset"
begin

section \<open>brickd network front-end: data model\<close>

text \<open>
  The development follows \<^verbatim>\<open>src/brickd/network.c\<close>. The file-level statics
  (\<^verbatim>\<open>_clients\<close>, the two \<^verbatim>\<open>_server_socket_*_open\<close> flags and
  \<^verbatim>\<open>_next_authentication_nonce\<close>) become the fields of one record that every
  function takes and returns. Calls that leave the file (logging, the client module,
  the socket and event modules of daemonlib) are recorded, in call order, in a ghost
  field \<open>trace\<close>; their results are parameters of the model.
\<close>

type_synonym uint16 = "16 word"
type_synonym uint32 = "32 word"

text \<open>
  Modelled from the spec: the \<^verbatim>\<open>Packet\<close> struct and its accessors belong to
  daemonlib (\<^verbatim>\<open>daemonlib/packet.h\<close>), which \<^verbatim>\<open>network.c\<close> only includes. The
  router reads one thing from a packet, the sequence number of its header (0 marks a
  callback, nonzero a response), which \<^verbatim>\<open>packet_header_get_sequence_number\<close>
  returns as a \<^verbatim>\<open>uint8_t\<close>.
\<close>

record packet_header =
  sequence_number :: "8 word"

record packet =
  header :: packet_header
  payload :: "8 word list"

definition packet_header_get_sequence_number :: "packet_header \<Rightarrow> 8 word" where
  "packet_header_get_sequence_number h = sequence_number h"

text \<open>
  Modelled from the spec: the \<^verbatim>\<open>Client\<close> struct is declared in
  \<^verbatim>\<open>client.h\<close>, which \<^verbatim>\<open>network.c\<close> only includes. It holds the peer
  label, the transport handle, the authentication nonce given at creation, the
  \<^verbatim>\<open>disconnected\<close> flag that \<^verbatim>\<open>network_cleanup_clients\<close> reads, and the
  pending-request state, which is opaque here (type \<open>'p\<close>).
\<close>

record 'p client =
  name :: string
  io :: nat
  authentication_nonce :: uint32
  disconnected :: bool
  pending_requests :: 'p

datatype socket_id = Server_Socket_Plain | Server_Socket_Websocket

datatype address_family = AF_INET | AF_INET6 | AF_OTHER int

record addrinfo =
  ai_family :: address_family
  ai_socktype :: int
  ai_protocol :: int

datatype log_level = LOG_ERROR | LOG_WARN | LOG_INFO | LOG_DEBUG

text \<open>One constructor for each logging call of the functions modelled, with its arguments.\<close>

datatype 'p log_message =
    Opening_Server_Socket uint16
  | Could_Not_Resolve_Listen_Address string uint16
  | Could_Not_Create_Socket
  | Could_Not_Open_Server_Socket string
  | Could_Not_Set_Dual_Stack bool
  | Could_Not_Enable_Address_Reuse
  | Could_Not_Bind string string uint16
  | Could_Not_Listen string string uint16
  | Started_Listening string string uint16
  | Initializing_Network_Subsystem
  | Authentication_Is_Enabled
  | Could_Not_Create_Client_Array
  | WebSocket_Without_Authentication
  | Could_Not_Open_Any_Socket
  | Could_Not_Append_To_Client_Array
  | Added_New_Client "'p client"
  | Removing_Disconnected_Client "'p client"
  | No_Clients_Dropping_Callback packet
  | No_Clients_Dropping_Response packet
  | Broadcasting_Callback packet nat
  | Dispatching_Response packet nat
  | Broadcasting_Response_No_Match packet

text \<open>
  The calls that leave \<^verbatim>\<open>network.c\<close>. \<open>Client_Dispatch_Response i p force ign\<close>
  is the call \<^verbatim>\<open>client_dispatch_response(client, p, force, ign)\<close> on the client
  stored at index \<open>i\<close> of \<^verbatim>\<open>_clients\<close>.
\<close>

datatype 'p event =
    Log log_level "'p log_message"
  | Client_Dispatch_Response nat packet bool bool
  | Client_Create string nat uint32
  | Client_Destroy "'p client"
  | Array_Create
  | Array_Destroy "'p client list"
  | Socket_Hostname_To_Address string uint16 "addrinfo option"
  | Socket_Create socket_id int
  | Socket_Open socket_id address_family
  | Socket_Set_Dual_Stack socket_id bool
  | Socket_Set_Address_Reuse socket_id bool
  | Socket_Bind socket_id
  | Socket_Listen socket_id int
  | Event_Add_Source socket_id
  | Socket_Destroy socket_id
  | Freeaddrinfo

record 'p network =
  clients :: "'p client list"
  server_socket_plain_open :: bool
  server_socket_websocket_open :: bool
  next_authentication_nonce :: uint32
  trace :: "'p event list"

definition emit :: "'p event \<Rightarrow> 'p network \<Rightarrow> 'p network" where
  "emit e s = s\<lparr>trace := trace s @ [e]\<rparr>"

definition emits :: "'p event list \<Rightarrow> 'p network \<Rightarrow> 'p network" where
  "emits es s = s\<lparr>trace := trace s @ es\<rparr>"

text \<open>The calls a function added to the trace, between the state before and the state after.\<close>

definition new_events :: "'p network \<Rightarrow> 'p network \<Rightarrow> 'p event list" where
  "new_events s s' = drop (length (trace s)) (trace s')"

text \<open>
  The result of \<^verbatim>\<open>client_dispatch_response(client, response, force,
  ignore_authentication)\<close>, a function of \<^verbatim>\<open>client.c\<close>: the \<^verbatim>\<open>int\<close> it
  returns (positive when the packet was delivered to a matching pending request) and the
  client as it leaves it.
\<close>

type_synonym 'p dispatch_contract =
  "'p client \<Rightarrow> packet \<Rightarrow> bool \<Rightarrow> bool \<Rightarrow> int \<times> 'p client"

subsection \<open>The array of daemonlib\<close>

text \<open>
  Modelled from the spec: the \<^verbatim>\<open>Array\<close> type and its functions belong to
  daemonlib (\<^verbatim>\<open>daemonlib/array.h\<close>), which \<^verbatim>\<open>network.c\<close> only includes.
  \<^verbatim>\<open>array_get\<close> returns the item at an index; the C code reads outside the array
  when the index is out of range, which is the value \<open>None\<close> here.
\<close>

definition array_get :: "'a list \<Rightarrow> int \<Rightarrow> 'a option" where
  "array_get xs i = (if 0 \<le> i \<and> i < int (length xs) then Some (xs ! nat i) else None)"

text \<open>
  Modelled from the spec: \<^verbatim>\<open>array_append\<close> adds one slot at the end and returns
  it, or returns \<^verbatim>\<open>NULL\<close> when the allocation fails. The outcome of the allocation
  is the first argument: \<open>None\<close> for a failure, otherwise the content of the fresh slot.
\<close>

definition array_append :: "'a option \<Rightarrow> 'a list \<Rightarrow> 'a list option" where
  "array_append alloc xs = (case alloc of None \<Rightarrow> None | Some slot \<Rightarrow> Some (xs @ [slot]))"

text \<open>
  Modelled from the spec: \<^verbatim>\<open>array_remove(array, i, destroy)\<close> calls
  \<open>destroy\<close> on item \<open>i\<close> unless it is \<^verbatim>\<open>NULL\<close>, then closes the gap. The spec
  leaves open how the gap is closed (the items behind it move down by one, or the last item
  moves into it), so both ways are modelled and the strategy is a parameter. The result is
  the list of \<open>destroy\<close> calls and the new array; an index out of range is \<open>None\<close>.
\<close>

datatype removal = Shift_Down | Swap_With_Last

definition array_remove ::
  "removal \<Rightarrow> 'a list \<Rightarrow> int \<Rightarrow> ('a \<Rightarrow> 'e) option \<Rightarrow> ('e list \<times> 'a list) option" where
  "array_remove r xs i destroy =
     (if 0 \<le> i \<and> i < int (length xs) then
        Some ((case destroy of None \<Rightarrow> [] | Some d \<Rightarrow> [d (xs ! nat i)]),
              (case r of
                 Shift_Down \<Rightarrow> take (nat i) xs @ drop (nat i + 1) xs
               | Swap_With_Last \<Rightarrow> butlast (xs[nat i := last xs])))
      else None)"

section \<open>Packet dispatch: \<^verbatim>\<open>network_dispatch_response\<close>\<close>

text \<open>The loop \<^verbatim>\<open>for (i = 0; i < _clients.count; ++i)\<close> with \<open>force = true\<close>.\<close>

function broadcast_loop ::
  "'p dispatch_contract \<Rightarrow> packet \<Rightarrow> int \<Rightarrow> 'p network \<Rightarrow> 'p network option" where
  "broadcast_loop cdr response i s =
     (if i < int (length (clients s)) then
        (case array_get (clients s) i of
           None \<Rightarrow> None
         | Some client \<Rightarrow>
             (case cdr client response True False of
                (rc, client') \<Rightarrow>
                  broadcast_loop cdr response (i + 1)
                    (emit (Client_Dispatch_Response (nat i) response True False)
                       (s\<lparr>clients := (clients s)[nat i := client']\<rparr>))))
      else Some s)"
  by pat_completeness auto
termination
  by (relation "measure (\<lambda>(cdr, response, i, s). nat (int (length (clients s)) - i))")
     (auto simp: emit_def)

text \<open>
  The loop with \<open>force = false\<close>, left by \<^verbatim>\<open>return\<close> at the first client whose
  call returns a positive value. The flag of the result says whether that happened.
\<close>

function selective_loop ::
  "'p dispatch_contract \<Rightarrow> packet \<Rightarrow> int \<Rightarrow> 'p network \<Rightarrow> (bool \<times> 'p network) option" where
  "selective_loop cdr response i s =
     (if i < int (length (clients s)) then
        (case array_get (clients s) i of
           None \<Rightarrow> None
         | Some client \<Rightarrow>
             (case cdr client response False False of
                (rc, client') \<Rightarrow>
                  (let s' = emit (Client_Dispatch_Response (nat i) response False False)
                              (s\<lparr>clients := (clients s)[nat i := client']\<rparr>)
                   in if rc > 0 then Some (True, s')
                      else selective_loop cdr response (i + 1) s')))
      else Some (False, s))"
  by pat_completeness auto
termination
  by (relation "measure (\<lambda>(cdr, response, i, s). nat (int (length (clients s)) - i))")
     (auto simp: emit_def)

definition network_dispatch_response ::
  "'p dispatch_contract \<Rightarrow> packet \<Rightarrow> 'p network \<Rightarrow> 'p network option" where
  "network_dispatch_response cdr response s =
     (if length (clients s) = 0 then
        (if packet_header_get_sequence_number (header response) = 0
         then Some (emit (Log LOG_DEBUG (No_Clients_Dropping_Callback response)) s)
         else Some (emit (Log LOG_DEBUG (No_Clients_Dropping_Response response)) s))
      else if packet_header_get_sequence_number (header response) = 0 then
        broadcast_loop cdr response 0
          (emit (Log LOG_DEBUG (Broadcasting_Callback response (length (clients s)))) s)
      else
        (case selective_loop cdr response 0
                (emit (Log LOG_DEBUG (Dispatching_Response response (length (clients s)))) s) of
           None \<Rightarrow> None
         | Some (True, s') \<Rightarrow> Some s'
         | Some (False, s') \<Rightarrow>
             broadcast_loop cdr response 0
               (emit (Log LOG_WARN (Broadcasting_Response_No_Match response)) s')))"

section \<open>Session registry: \<^verbatim>\<open>network_create_client\<close>, \<^verbatim>\<open>network_cleanup_clients\<close>\<close>

text \<open>
  The result of \<^verbatim>\<open>client_create(client, name, io, nonce, NULL)\<close>, a function of
  \<^verbatim>\<open>client.c\<close>: the \<^verbatim>\<open>int\<close> it returns (negative on failure) and the slot
  as it leaves it.
\<close>

type_synonym 'p create_contract =
  "'p client \<Rightarrow> string \<Rightarrow> nat \<Rightarrow> uint32 \<Rightarrow> int \<times> 'p client"

text \<open>
  \<open>alloc\<close> is the outcome of the allocation inside \<^verbatim>\<open>array_append\<close>. The result
  is the client the returned pointer points to, \<open>None\<close> for \<^verbatim>\<open>NULL\<close>. The
  removal of the slot at \<^verbatim>\<open>_clients.count - 1\<close> follows an append, so its index is
  in range and the \<open>None\<close> branch of \<open>array_remove\<close> is never taken.
\<close>

definition network_create_client ::
  "removal \<Rightarrow> 'p create_contract \<Rightarrow> 'p client option \<Rightarrow> string \<Rightarrow> nat \<Rightarrow> 'p network
     \<Rightarrow> 'p client option \<times> 'p network" where
  "network_create_client r cc alloc name' io' s =
     (case array_append alloc (clients s) of
        None \<Rightarrow> (None, emit (Log LOG_ERROR Could_Not_Append_To_Client_Array) s)
      | Some xs \<Rightarrow>
          (let s1 = s\<lparr>clients := xs\<rparr>;
               nonce = next_authentication_nonce s1;
               s2 = emit (Client_Create name' io' nonce)
                      (s1\<lparr>next_authentication_nonce := nonce + 1\<rparr>)
           in case cc (last xs) name' io' nonce of
                (rc, client') \<Rightarrow>
                  if rc < 0 then
                    (case array_remove r (clients s2) (int (length (clients s2)) - 1) None of
                       None \<Rightarrow> (None, s2)
                     | Some (es, ys) \<Rightarrow> (None, emits es (s2\<lparr>clients := ys\<rparr>)))
                  else
                    (Some client',
                     emit (Log LOG_INFO (Added_New_Client client'))
                       (s2\<lparr>clients := xs[length xs - 1 := client']\<rparr>))))"

text \<open>
  Session creations one after the other, as the accept handler makes them: each request is
  the allocation outcome, the peer label and the transport handle of one call.
\<close>

fun create_clients ::
  "removal \<Rightarrow> 'p create_contract \<Rightarrow> ('p client option \<times> string \<times> nat) list \<Rightarrow> 'p network
     \<Rightarrow> 'p network" where
  "create_clients r cc [] s = s"
| "create_clients r cc ((alloc, name', io') # reqs) s =
     create_clients r cc reqs (snd (network_create_client r cc alloc name' io' s))"

text \<open>The number of requests that reach \<^verbatim>\<open>client_create\<close>, their slot being allocated.\<close>

definition attempts :: "('p client option \<times> string \<times> nat) list \<Rightarrow> nat" where
  "attempts reqs = length (filter (\<lambda>q. fst q \<noteq> None) reqs)"

text \<open>The nonces handed to \<^verbatim>\<open>client_create\<close>, in call order.\<close>

fun issued_nonces :: "'p event list \<Rightarrow> uint32 list" where
  "issued_nonces [] = []"
| "issued_nonces (Client_Create n h nonce # es) = nonce # issued_nonces es"
| "issued_nonces (e # es) = issued_nonces es"

text \<open>
  The loop \<^verbatim>\<open>for (i = _clients.count - 1; i >= 0; --i)\<close>. A read or a removal
  outside the array makes the result \<open>None\<close>.
\<close>

function cleanup_loop :: "removal \<Rightarrow> int \<Rightarrow> 'p network \<Rightarrow> 'p network option" where
  "cleanup_loop r i s =
     (if i \<ge> 0 then
        (case array_get (clients s) i of
           None \<Rightarrow> None
         | Some client \<Rightarrow>
             if disconnected client then
               (case array_remove r (clients s) i (Some Client_Destroy) of
                  None \<Rightarrow> None
                | Some (es, xs) \<Rightarrow>
                    cleanup_loop r (i - 1)
                      (emits es
                         ((emit (Log LOG_DEBUG (Removing_Disconnected_Client client)) s)
                            \<lparr>clients := xs\<rparr>)))
             else cleanup_loop r (i - 1) s)
      else Some s)"
  by pat_completeness auto
termination
  by (relation "measure (\<lambda>(r, i, s). nat (i + 1))") auto

definition network_cleanup_clients :: "removal \<Rightarrow> 'p network \<Rightarrow> 'p network option" where
  "network_cleanup_clients r s = cleanup_loop r (int (length (clients s)) - 1) s"

text \<open>The clients handed to \<^verbatim>\<open>client_destroy\<close>, in call order.\<close>

fun destroyed :: "'p event list \<Rightarrow> 'p client list" where
  "destroyed [] = []"
| "destroyed (Client_Destroy c # es) = c # destroyed es"
| "destroyed (e # es) = destroyed es"

text \<open>
  The calls one pass of the loop makes for the clients it removes: for each of them the
  debug message, then \<^verbatim>\<open>client_destroy\<close> from inside \<^verbatim>\<open>array_remove\<close>.
\<close>

definition removal_calls :: "'p client list \<Rightarrow> 'p event list" where
  "removal_calls cs =
     concat (map (\<lambda>c. [Log LOG_DEBUG (Removing_Disconnected_Client c), Client_Destroy c]) cs)"

section \<open>Server sockets: \<^verbatim>\<open>network_open_server_socket\<close>, \<^verbatim>\<open>network_init\<close>\<close>

text \<open>The options that \<^verbatim>\<open>config_get_option\<close> is asked for.\<close>

record config =
  listen_address :: string
  listen_plain_port :: int
  listen_websocket_port :: int
  listen_dual_stack :: bool
  authentication_secret :: "string option"

text \<open>
  What the socket and event modules answer during one call of
  \<^verbatim>\<open>network_open_server_socket\<close>: the first resolved address (\<open>None\<close> for
  \<^verbatim>\<open>NULL\<close>) and the \<^verbatim>\<open>int\<close> each call returns, negative on failure.
\<close>

record socket_env =
  socket_hostname_to_address :: "addrinfo option"
  socket_create :: int
  socket_open :: int
  socket_set_dual_stack :: int
  socket_set_address_reuse :: int
  socket_bind :: int
  socket_listen :: int
  event_add_source :: int

definition network_get_address_family_name :: "config \<Rightarrow> address_family \<Rightarrow> bool \<Rightarrow> string" where
  "network_get_address_family_name cfg family report_dual_stack =
     (case family of
        AF_INET \<Rightarrow> ''IPv4''
      | AF_INET6 \<Rightarrow>
          if report_dual_stack \<and> listen_dual_stack cfg then ''IPv6 dual-stack'' else ''IPv6''
      | AF_OTHER n \<Rightarrow> ''<unknown>'')"

text \<open>
  The code behind the label \<^verbatim>\<open>cleanup:\<close>: the \<^verbatim>\<open>switch\<close> on the phase, whose
  cases fall through, and the \<^verbatim>\<open>return\<close>.
\<close>

definition open_cleanup :: "socket_id \<Rightarrow> int \<Rightarrow> 'p network \<Rightarrow> int \<times> 'p network" where
  "open_cleanup server_socket phase s =
     (let s1 = (if phase = 2 then emit (Socket_Destroy server_socket) s else s);
          s2 = (if phase = 2 \<or> phase = 1 then emit Freeaddrinfo s1 else s1)
      in (if phase = 3 then 0 else - 1, s2))"

text \<open>
  The second half of the function, from the address-reuse option on. \<open>win32\<close> stands for
  the macro \<^verbatim>\<open>_WIN32\<close>, under which the address-reuse block is compiled out.
\<close>

definition open_bind_listen ::
  "bool \<Rightarrow> config \<Rightarrow> socket_env \<Rightarrow> socket_id \<Rightarrow> uint16 \<Rightarrow> addrinfo \<Rightarrow> 'p network
     \<Rightarrow> int \<times> 'p network" where
  "open_bind_listen win32 cfg env server_socket port resolved_address s0 =
     (let address = listen_address cfg;
          family = ai_family resolved_address;
          s1 = (if win32 then s0 else emit (Socket_Set_Address_Reuse server_socket True) s0)
      in if \<not> win32 \<and> socket_set_address_reuse env < 0 then
           open_cleanup server_socket 2 (emit (Log LOG_ERROR Could_Not_Enable_Address_Reuse) s1)
         else
           (let s2 = emit (Socket_Bind server_socket) s1
            in if socket_bind env < 0 then
                 open_cleanup server_socket 2
                   (emit (Log LOG_ERROR
                      (Could_Not_Bind (network_get_address_family_name cfg family True)
                         address port)) s2)
               else
                 (let s3 = emit (Socket_Listen server_socket 10) s2
                  in if socket_listen env < 0 then
                       open_cleanup server_socket 2
                         (emit (Log LOG_ERROR
                            (Could_Not_Listen (network_get_address_family_name cfg family True)
                               address port)) s3)
                     else
                       (let s4 = emit (Log LOG_DEBUG
                                   (Started_Listening address
                                      (network_get_address_family_name cfg family True) port)) s3;
                            s5 = emit (Event_Add_Source server_socket) s4
                        in if event_add_source env < 0 then open_cleanup server_socket 2 s5
                           else open_cleanup server_socket 3 (emit Freeaddrinfo s5)))))"

definition network_open_server_socket ::
  "bool \<Rightarrow> config \<Rightarrow> socket_env \<Rightarrow> socket_id \<Rightarrow> uint16 \<Rightarrow> 'p network \<Rightarrow> int \<times> 'p network" where
  "network_open_server_socket win32 cfg env server_socket port s0 =
     (let address = listen_address cfg;
          s1 = emit (Log LOG_DEBUG (Opening_Server_Socket port)) s0;
          s2 = emit (Socket_Hostname_To_Address address port (socket_hostname_to_address env)) s1
      in case socket_hostname_to_address env of
           None \<Rightarrow>
             open_cleanup server_socket 0
               (emit (Log LOG_ERROR (Could_Not_Resolve_Listen_Address address port)) s2)
         | Some resolved_address \<Rightarrow>
             (let s3 = emit (Socket_Create server_socket (socket_create env)) s2
              in if socket_create env < 0 then
                   open_cleanup server_socket 1 (emit (Log LOG_ERROR Could_Not_Create_Socket) s3)
                 else
                   (let s4 = emit (Socket_Open server_socket (ai_family resolved_address)) s3
                    in if socket_open env < 0 then
                         open_cleanup server_socket 2
                           (emit (Log LOG_ERROR
                              (Could_Not_Open_Server_Socket
                                 (network_get_address_family_name cfg
                                    (ai_family resolved_address) False))) s4)
                       else if ai_family resolved_address = AF_INET6 then
                         (let dual_stack = listen_dual_stack cfg;
                              s5 = emit (Socket_Set_Dual_Stack server_socket dual_stack) s4
                          in if socket_set_dual_stack env < 0 then
                               open_cleanup server_socket 2
                                 (emit (Log LOG_ERROR (Could_Not_Set_Dual_Stack dual_stack)) s5)
                             else
                               open_bind_listen win32 cfg env server_socket port
                                 resolved_address s5)
                       else
                         open_bind_listen win32 cfg env server_socket port resolved_address s4)))"

text \<open>
  \<open>random\<close> is the value of \<^verbatim>\<open>get_random_uint32()\<close>, \<open>array_create\<close> the value
  that \<^verbatim>\<open>array_create\<close> returns, and the two environments are what the socket
  layer answers while the plain and the WebSocket listener are opened.
\<close>

definition network_init ::
  "bool \<Rightarrow> config \<Rightarrow> uint32 \<Rightarrow> int \<Rightarrow> socket_env \<Rightarrow> socket_env \<Rightarrow> 'p network
     \<Rightarrow> int \<times> 'p network" where
  "network_init win32 cfg random array_create env_plain env_websocket s0 =
     (let plain_port = (word_of_int (listen_plain_port cfg) :: uint16);
          websocket_port = (word_of_int (listen_websocket_port cfg) :: uint16);
          s1 = emit (Log LOG_DEBUG Initializing_Network_Subsystem) s0;
          s2 = (if authentication_secret cfg \<noteq> None
                then (emit (Log LOG_INFO Authentication_Is_Enabled) s1)
                       \<lparr>next_authentication_nonce := random\<rparr>
                else s1);
          s3 = emit Array_Create s2
      in if array_create < 0 then
           (- 1, emit (Log LOG_ERROR Could_Not_Create_Client_Array) s3)
         else
           (let s4 = s3\<lparr>clients := []\<rparr>;
                (rc_plain, s5) =
                   network_open_server_socket win32 cfg env_plain Server_Socket_Plain
                     plain_port s4;
                s6 = (if rc_plain \<ge> 0 then s5\<lparr>server_socket_plain_open := True\<rparr> else s5);
                s9 = (if websocket_port \<noteq> 0 then
                        (let s7 = (if authentication_secret cfg = None
                                   then emit (Log LOG_WARN WebSocket_Without_Authentication) s6
                                   else s6);
                             (rc_websocket, s8) =
                                network_open_server_socket win32 cfg env_websocket
                                  Server_Socket_Websocket websocket_port s7
                         in if rc_websocket \<ge> 0
                            then s8\<lparr>server_socket_websocket_open := True\<rparr> else s8)
                      else s6)
            in if \<not> server_socket_plain_open s9 \<and> \<not> server_socket_websocket_open s9 then
                 (- 1,
                  emit (Array_Destroy (clients s9))
                    (emit (Log LOG_ERROR Could_Not_Open_Any_Socket) s9))
               else (0, s9)))"

text \<open>
  Resource accounting over a trace. A resolved address list is acquired by a
  \<^verbatim>\<open>socket_hostname_to_address\<close> that does not return \<^verbatim>\<open>NULL\<close> and released by
  \<^verbatim>\<open>freeaddrinfo\<close>; a socket is acquired by a \<^verbatim>\<open>socket_create\<close> that does not
  fail and released by \<^verbatim>\<open>socket_destroy\<close>.
\<close>

datatype resource = Resolved_Address | Socket_Resource socket_id

fun acquires :: "'p event \<Rightarrow> resource option" where
  "acquires (Socket_Hostname_To_Address a p (Some ai)) = Some Resolved_Address"
| "acquires (Socket_Create sock rc) = (if rc < 0 then None else Some (Socket_Resource sock))"
| "acquires e = None"

fun releases :: "'p event \<Rightarrow> resource option" where
  "releases Freeaddrinfo = Some Resolved_Address"
| "releases (Socket_Destroy sock) = Some (Socket_Resource sock)"
| "releases e = None"

definition acquired :: "'p event list \<Rightarrow> resource list" where
  "acquired es = List.map_filter acquires es"

definition released :: "'p event list \<Rightarrow> resource list" where
  "released es = List.map_filter releases es"

text \<open>
  \<open>track held es\<close> runs the trace from the resources \<open>held\<close>: \<open>None\<close> when a resource is
  acquired while held or released while not held, otherwise the resources held at the end.
\<close>

fun track :: "resource list \<Rightarrow> 'p event list \<Rightarrow> resource list option" where
  "track held [] = Some held"
| "track held (e # es) =
     (case acquires e of
        Some r \<Rightarrow> if r \<in> set held then None else track (r # held) es
      | None \<Rightarrow>
          (case releases e of
             Some r \<Rightarrow> if r \<in> set held then track (removeAll r held) es else None
           | None \<Rightarrow> track held es))"

text \<open>Every step of \<^verbatim>\<open>network_open_server_socket\<close> that is executed succeeds.\<close>

definition all_steps_succeed :: "bool \<Rightarrow> socket_env \<Rightarrow> bool" where
  "all_steps_succeed win32 env =
     (case socket_hostname_to_address env of
        None \<Rightarrow> False
      | Some resolved_address \<Rightarrow>
          0 \<le> socket_create env \<and> 0 \<le> socket_open env \<and>
          (ai_family resolved_address = AF_INET6 \<longrightarrow> 0 \<le> socket_set_dual_stack env) \<and>
          (\<not> win32 \<longrightarrow> 0 \<le> socket_set_address_reuse env) \<and>
          0 \<le> socket_bind env \<and> 0 \<le> socket_listen env \<and> 0 \<le> event_add_source env)"

section \<open>Fixtures\<close>

text \<open>
  A sample session contract and sample clients, to run the functions on concrete
  registries. The pending-request state of a sample client is the list of sequence
  numbers it waits for; a forced delivery always reports 1, a selective one reports 1 when
  the sequence number of the packet is pending (and removes it) and 0 otherwise.
\<close>

definition sample_dispatch :: "(8 word list) dispatch_contract" where
  "sample_dispatch c p force ignore_authentication =
     (if force then (1, c)
      else if sequence_number (header p) \<in> set (pending_requests c)
      then (1, c\<lparr>pending_requests := removeAll (sequence_number (header p)) (pending_requests c)\<rparr>)
      else (0, c))"

text \<open>A sample \<^verbatim>\<open>client_create\<close>: it fails on an empty peer label.\<close>

definition sample_create :: "(8 word list) create_contract" where
  "sample_create slot n h nonce =
     (if n = [] then (- 1, slot)
      else (0, \<lparr>name = n, io = h, authentication_nonce = nonce, disconnected = False,
                pending_requests = []\<rparr>))"

definition sample_client :: "string \<Rightarrow> bool \<Rightarrow> 8 word list \<Rightarrow> (8 word list) client" where
  "sample_client n d pend =
     \<lparr>name = n, io = 0, authentication_nonce = 0, disconnected = d, pending_requests = pend\<rparr>"

definition sample_network :: "(8 word list) client list \<Rightarrow> (8 word list) network" where
  "sample_network cs =
     \<lparr>clients = cs, server_socket_plain_open = True, server_socket_websocket_open = False,
      next_authentication_nonce = 0, trace = []\<rparr>"

definition sample_config :: config where
  "sample_config =
     \<lparr>listen_address = ''0.0.0.0'', listen_plain_port = 4223, listen_websocket_port = 4280,
      listen_dual_stack = False, authentication_secret = None\<rparr>"

text \<open>A socket layer in which every call succeeds, on an IPv6 address.\<close>

definition sample_env :: socket_env where
  "sample_env =
     \<lparr>socket_hostname_to_address = Some \<lparr>ai_family = AF_INET6, ai_socktype = 1, ai_protocol = 6\<rparr>,
      socket_create = 0, socket_open = 0, socket_set_dual_stack = 0,
      socket_set_address_reuse = 0, socket_bind = 0, socket_listen = 0,
      event_add_source = 0\<rparr>"

text \<open>The statics as their initialisers leave them, before \<^verbatim>\<open>network_init\<close>.\<close>

definition initial_network :: "(8 word list) network" where
  "initial_network =
     \<lparr>clients = [], server_socket_plain_open = False, server_socket_websocket_open = False,
      next_authentication_nonce = 0, trace = []\<rparr>"

definition sample_packet :: "8 word \<Rightarrow> packet" where
  "sample_packet n = \<lparr>header = \<lparr>sequence_number = n\<rparr>, payload = []\<rparr>"

section \<open>Basic facts\<close>

lemma array_get_in_range:
  "0 \<le> i \<Longrightarrow> i < int (length xs) \<Longrightarrow> array_get xs i = Some (xs ! nat i)"
  by (simp add: array_get_def)

lemma trace_emit [simp]: "trace (emit e s) = trace s @ [e]"
  by (simp add: emit_def)

lemma clients_emit [simp]: "clients (emit e s) = clients s"
  by (simp add: emit_def)

lemma nonce_emit [simp]: "next_authentication_nonce (emit e s) = next_authentication_nonce s"
  by (simp add: emit_def)

lemma plain_open_emit [simp]: "server_socket_plain_open (emit e s) = server_socket_plain_open s"
  by (simp add: emit_def)

lemma websocket_open_emit [simp]:
  "server_socket_websocket_open (emit e s) = server_socket_websocket_open s"
  by (simp add: emit_def)

lemma new_events_append [simp]: "trace s' = trace s @ es \<Longrightarrow> new_events s s' = es"
  by (simp add: new_events_def)

section \<open>Properties of the dispatch router\<close>

declare broadcast_loop.simps [simp del] selective_loop.simps [simp del]

lemma broadcast_loop_run:
  "i \<le> length (clients s) \<Longrightarrow>
   \<exists>s'. broadcast_loop cdr p (int i) s = Some s' \<and>
        trace s' = trace s @ map (\<lambda>k. Client_Dispatch_Response k p True False)
                                 [i..<length (clients s)] \<and>
        clients s' = take i (clients s) @
                     map (\<lambda>c. snd (cdr c p True False)) (drop i (clients s)) \<and>
        next_authentication_nonce s' = next_authentication_nonce s \<and>
        server_socket_plain_open s' = server_socket_plain_open s \<and>
        server_socket_websocket_open s' = server_socket_websocket_open s"
proof (induction "length (clients s) - i" arbitrary: i s)
  case 0
  then have "i = length (clients s)" by simp
  then show ?case by (subst broadcast_loop.simps) simp
next
  case (Suc n)
  then have lt: "i < length (clients s)" by simp
  obtain rc c' where cd: "cdr (clients s ! i) p True False = (rc, c')"
    by (cases "cdr (clients s ! i) p True False")
  let ?s1 = "emit (Client_Dispatch_Response i p True False) (s\<lparr>clients := (clients s)[i := c']\<rparr>)"
  have step: "broadcast_loop cdr p (int i) s = broadcast_loop cdr p (int (Suc i)) ?s1"
    using lt cd by (simp add: broadcast_loop.simps [of cdr p "int i" s] array_get_def add.commute)
  have len: "length (clients ?s1) = length (clients s)" by simp
  have "n = length (clients ?s1) - Suc i" using Suc.hyps(2) by simp
  moreover have "Suc i \<le> length (clients ?s1)" using lt by simp
  ultimately obtain s' where r: "broadcast_loop cdr p (int (Suc i)) ?s1 = Some s'"
    "trace s' = trace ?s1 @ map (\<lambda>k. Client_Dispatch_Response k p True False)
                                 [Suc i..<length (clients ?s1)]"
    "clients s' = take (Suc i) (clients ?s1) @
                     map (\<lambda>c. snd (cdr c p True False)) (drop (Suc i) (clients ?s1))"
    "next_authentication_nonce s' = next_authentication_nonce ?s1"
    "server_socket_plain_open s' = server_socket_plain_open ?s1"
    "server_socket_websocket_open s' = server_socket_websocket_open ?s1"
    using Suc.hyps(1) [of ?s1 "Suc i"] by blast
  have tr: "trace s' = trace s @ map (\<lambda>k. Client_Dispatch_Response k p True False)
                                 [i..<length (clients s)]"
    using r(2) lt by (simp add: upt_conv_Cons)
  have cl: "clients s' = take i (clients s) @
                     map (\<lambda>c. snd (cdr c p True False)) (drop i (clients s))"
    using r(3) lt cd
    by (simp add: take_Suc_conv_app_nth Cons_nth_drop_Suc [symmetric])
  show ?case using step r(1,4,5,6) tr cl by simp
qed


lemma selective_loop_no_match:
  "i \<le> length (clients s) \<Longrightarrow>
   (\<And>k. i \<le> k \<Longrightarrow> k < length (clients s) \<Longrightarrow> fst (cdr (clients s ! k) p False False) \<le> 0) \<Longrightarrow>
   \<exists>s'. selective_loop cdr p (int i) s = Some (False, s') \<and>
        trace s' = trace s @ map (\<lambda>k. Client_Dispatch_Response k p False False)
                                 [i..<length (clients s)] \<and>
        clients s' = take i (clients s) @
                     map (\<lambda>c. snd (cdr c p False False)) (drop i (clients s)) \<and>
        next_authentication_nonce s' = next_authentication_nonce s \<and>
        server_socket_plain_open s' = server_socket_plain_open s \<and>
        server_socket_websocket_open s' = server_socket_websocket_open s"
proof (induction "length (clients s) - i" arbitrary: i s)
  case 0
  then have "i = length (clients s)" by simp
  then show ?case by (subst selective_loop.simps) simp
next
  case (Suc n)
  then have lt: "i < length (clients s)" by simp
  obtain rc c' where cd: "cdr (clients s ! i) p False False = (rc, c')"
    by (cases "cdr (clients s ! i) p False False")
  have rc: "rc \<le> 0" using Suc.prems(2) [of i] lt cd by simp
  let ?s1 = "emit (Client_Dispatch_Response i p False False) (s\<lparr>clients := (clients s)[i := c']\<rparr>)"
  have step: "selective_loop cdr p (int i) s = selective_loop cdr p (int (Suc i)) ?s1"
    using lt cd rc by (simp add: selective_loop.simps [of cdr p "int i" s] array_get_def add.commute)
  have "n = length (clients ?s1) - Suc i" using Suc.hyps(2) by simp
  moreover have "Suc i \<le> length (clients ?s1)" using lt by simp
  moreover have "\<And>k. Suc i \<le> k \<Longrightarrow> k < length (clients ?s1) \<Longrightarrow>
                   fst (cdr (clients ?s1 ! k) p False False) \<le> 0"
    using Suc.prems(2) by simp
  ultimately obtain s' where r: "selective_loop cdr p (int (Suc i)) ?s1 = Some (False, s')"
    "trace s' = trace ?s1 @ map (\<lambda>k. Client_Dispatch_Response k p False False)
                                 [Suc i..<length (clients ?s1)]"
    "clients s' = take (Suc i) (clients ?s1) @
                     map (\<lambda>c. snd (cdr c p False False)) (drop (Suc i) (clients ?s1))"
    "next_authentication_nonce s' = next_authentication_nonce ?s1"
    "server_socket_plain_open s' = server_socket_plain_open ?s1"
    "server_socket_websocket_open s' = server_socket_websocket_open ?s1"
    using Suc.hyps(1) [of ?s1 "Suc i"] by blast
  have tr: "trace s' = trace s @ map (\<lambda>k. Client_Dispatch_Response k p False False)
                                 [i..<length (clients s)]"
    using r(2) lt by (simp add: upt_conv_Cons)
  have cl: "clients s' = take i (clients s) @
                     map (\<lambda>c. snd (cdr c p False False)) (drop i (clients s))"
    using r(3) lt cd
    by (simp add: take_Suc_conv_app_nth Cons_nth_drop_Suc [symmetric])
  show ?case using step r(1,4,5,6) tr cl by simp
qed

lemma selective_loop_match:
  "i \<le> j \<Longrightarrow> j < length (clients s) \<Longrightarrow>
   (\<And>k. i \<le> k \<Longrightarrow> k < j \<Longrightarrow> fst (cdr (clients s ! k) p False False) \<le> 0) \<Longrightarrow>
   0 < fst (cdr (clients s ! j) p False False) \<Longrightarrow>
   \<exists>s'. selective_loop cdr p (int i) s = Some (True, s') \<and>
        trace s' = trace s @ map (\<lambda>k. Client_Dispatch_Response k p False False) [i..<Suc j] \<and>
        length (clients s') = length (clients s) \<and>
        drop (Suc j) (clients s') = drop (Suc j) (clients s) \<and>
        next_authentication_nonce s' = next_authentication_nonce s \<and>
        server_socket_plain_open s' = server_socket_plain_open s \<and>
        server_socket_websocket_open s' = server_socket_websocket_open s"
proof (induction "j - i" arbitrary: i s)
  case 0
  then have ij: "i = j" by simp
  obtain rc c' where cd: "cdr (clients s ! j) p False False = (rc, c')"
    by (cases "cdr (clients s ! j) p False False")
  have rc: "0 < rc" using "0.prems"(4) cd by simp
  show ?case
    using ij "0.prems"(2) cd rc
    by (simp add: selective_loop.simps [of cdr p "int j" s] array_get_def)
next
  case (Suc n)
  then have lt: "i < j" by simp
  then have lt': "i < length (clients s)" using Suc.prems(2) by simp
  obtain rc c' where cd: "cdr (clients s ! i) p False False = (rc, c')"
    by (cases "cdr (clients s ! i) p False False")
  have rc: "rc \<le> 0" using Suc.prems(3) [of i] lt cd by simp
  let ?s1 = "emit (Client_Dispatch_Response i p False False) (s\<lparr>clients := (clients s)[i := c']\<rparr>)"
  have step: "selective_loop cdr p (int i) s = selective_loop cdr p (int (Suc i)) ?s1"
    using lt' cd rc by (simp add: selective_loop.simps [of cdr p "int i" s] array_get_def add.commute)
  have "n = j - Suc i" using Suc.hyps(2) by simp
  moreover have "Suc i \<le> j" using lt by simp
  moreover have "j < length (clients ?s1)" using Suc.prems(2) by simp
  moreover have "\<And>k. Suc i \<le> k \<Longrightarrow> k < j \<Longrightarrow>
                   fst (cdr (clients ?s1 ! k) p False False) \<le> 0"
    using Suc.prems(3) by simp
  moreover have "0 < fst (cdr (clients ?s1 ! j) p False False)"
    using Suc.prems(4) lt by simp
  ultimately obtain s' where r: "selective_loop cdr p (int (Suc i)) ?s1 = Some (True, s')"
    "trace s' = trace ?s1 @ map (\<lambda>k. Client_Dispatch_Response k p False False) [Suc i..<Suc j]"
    "length (clients s') = length (clients ?s1)"
    "drop (Suc j) (clients s') = drop (Suc j) (clients ?s1)"
    "next_authentication_nonce s' = next_authentication_nonce ?s1"
    "server_socket_plain_open s' = server_socket_plain_open ?s1"
    "server_socket_websocket_open s' = server_socket_websocket_open ?s1"
    using Suc.hyps(1) [of "Suc i" ?s1] by blast
  have tr: "trace s' = trace s @ map (\<lambda>k. Client_Dispatch_Response k p False False) [i..<Suc j]"
    using r(2) lt by (simp add: upt_conv_Cons)
  have dr: "drop (Suc j) (clients s') = drop (Suc j) (clients s)"
    using r(4) lt by simp
  show ?case using step r(1,3,5,6,7) tr dr by simp
qed

lemma dispatch_callback_run:
  assumes "clients s \<noteq> []"
      and "packet_header_get_sequence_number (header response) = 0"
  shows "\<exists>s'. network_dispatch_response cdr response s = Some s' \<and>
           trace s' = trace s @
             Log LOG_DEBUG (Broadcasting_Callback response (length (clients s))) #
             map (\<lambda>k. Client_Dispatch_Response k response True False) [0..<length (clients s)] \<and>
           clients s' = map (\<lambda>c. snd (cdr c response True False)) (clients s)"
proof -
  let ?s1 = "emit (Log LOG_DEBUG (Broadcasting_Callback response (length (clients s)))) s"
  obtain s' where r: "broadcast_loop cdr response (int 0) ?s1 = Some s'"
    "trace s' = trace ?s1 @ map (\<lambda>k. Client_Dispatch_Response k response True False)
                                 [0..<length (clients ?s1)]"
    "clients s' = take 0 (clients ?s1) @
                     map (\<lambda>c. snd (cdr c response True False)) (drop 0 (clients ?s1))"
    using broadcast_loop_run [of 0 ?s1 cdr response] by auto
  have "network_dispatch_response cdr response s = Some s'"
    using assms r(1) by (simp add: network_dispatch_response_def)
  then show ?thesis using r(2,3) by simp
qed

lemma dispatch_orphan_run:
  assumes "clients s \<noteq> []"
      and "packet_header_get_sequence_number (header response) \<noteq> 0"
      and "\<forall>k<length (clients s). fst (cdr (clients s ! k) response False False) \<le> 0"
  shows "\<exists>s'. network_dispatch_response cdr response s = Some s' \<and>
           trace s' = trace s @
             Log LOG_DEBUG (Dispatching_Response response (length (clients s))) #
             map (\<lambda>k. Client_Dispatch_Response k response False False) [0..<length (clients s)] @
             Log LOG_WARN (Broadcasting_Response_No_Match response) #
             map (\<lambda>k. Client_Dispatch_Response k response True False) [0..<length (clients s)] \<and>
           clients s' =
             map (\<lambda>c. snd (cdr (snd (cdr c response False False)) response True False))
               (clients s)"
proof -
  let ?s1 = "emit (Log LOG_DEBUG (Dispatching_Response response (length (clients s)))) s"
  obtain s2 where r: "selective_loop cdr response (int 0) ?s1 = Some (False, s2)"
    "trace s2 = trace ?s1 @ map (\<lambda>k. Client_Dispatch_Response k response False False)
                                 [0..<length (clients ?s1)]"
    "clients s2 = take 0 (clients ?s1) @
                     map (\<lambda>c. snd (cdr c response False False)) (drop 0 (clients ?s1))"
    using selective_loop_no_match [of 0 ?s1 cdr response] assms(3) by auto
  let ?s3 = "emit (Log LOG_WARN (Broadcasting_Response_No_Match response)) s2"
  obtain s' where b: "broadcast_loop cdr response (int 0) ?s3 = Some s'"
    "trace s' = trace ?s3 @ map (\<lambda>k. Client_Dispatch_Response k response True False)
                                 [0..<length (clients ?s3)]"
    "clients s' = take 0 (clients ?s3) @
                     map (\<lambda>c. snd (cdr c response True False)) (drop 0 (clients ?s3))"
    using broadcast_loop_run [of 0 ?s3 cdr response] by auto
  have "network_dispatch_response cdr response s = Some s'"
    using assms(1,2) r(1) b(1) by (simp add: network_dispatch_response_def)
  moreover have "length (clients s2) = length (clients s)" using r(3) by simp
  ultimately show ?thesis using r(2,3) b(2,3) by simp
qed

lemma dispatch_match_run:
  assumes "packet_header_get_sequence_number (header response) \<noteq> 0"
      and "j < length (clients s)"
      and "0 < fst (cdr (clients s ! j) response False False)"
      and "\<forall>k<j. fst (cdr (clients s ! k) response False False) \<le> 0"
  shows "\<exists>s'. network_dispatch_response cdr response s = Some s' \<and>
           trace s' = trace s @
             Log LOG_DEBUG (Dispatching_Response response (length (clients s))) #
             map (\<lambda>k. Client_Dispatch_Response k response False False) [0..<Suc j] \<and>
           length (clients s') = length (clients s) \<and>
           drop (Suc j) (clients s') = drop (Suc j) (clients s)"
proof -
  let ?s1 = "emit (Log LOG_DEBUG (Dispatching_Response response (length (clients s)))) s"
  obtain s' where r: "selective_loop cdr response (int 0) ?s1 = Some (True, s')"
    "trace s' = trace ?s1 @ map (\<lambda>k. Client_Dispatch_Response k response False False) [0..<Suc j]"
    "length (clients s') = length (clients ?s1)"
    "drop (Suc j) (clients s') = drop (Suc j) (clients ?s1)"
    using selective_loop_match [of 0 j ?s1 cdr response] assms(2,3,4) by auto
  have "clients s \<noteq> []" using assms(2) by auto
  then have "network_dispatch_response cdr response s = Some s'"
    using assms(1) r(1) by (simp add: network_dispatch_response_def)
  then show ?thesis using r(2,3,4) by simp
qed

lemma forced_calls_count:
  "i < n \<Longrightarrow>
   count_list (map (\<lambda>k. Client_Dispatch_Response k p f g :: 'a event) [0..<n])
     (Client_Dispatch_Response i p f g) = 1"
proof (induction n)
  case 0
  then show ?case by simp
next
  case (Suc n)
  show ?case
  proof (cases "i < n")
    case True
    with Suc.IH show ?thesis by simp
  next
    case False
    with Suc.prems have "i = n" by simp
    then show ?thesis by (simp add: count_list_0_iff image_iff)
  qed
qed

text \<open>
  C8: with no client registered, the router calls no client for either kind of packet. It
  writes one debug message and returns; the message for a callback (sequence number 0) is
  another one than the message for a response.
\<close>

theorem dispatch_empty_registry_drops:
  assumes "clients s = []"
  shows "network_dispatch_response cdr response s =
           Some (emit (Log LOG_DEBUG
                   (if packet_header_get_sequence_number (header response) = 0
                    then No_Clients_Dropping_Callback response
                    else No_Clients_Dropping_Response response)) s) \<and>
         (No_Clients_Dropping_Callback response :: 'a log_message)
           \<noteq> No_Clients_Dropping_Response response"
  using assms by (simp add: network_dispatch_response_def)

theorem dispatch_empty_registry_drops_witness:
  "clients (sample_network []) = [] \<and>
   network_dispatch_response sample_dispatch (sample_packet 0) (sample_network []) =
     Some (emit (Log LOG_DEBUG (No_Clients_Dropping_Callback (sample_packet 0)))
             (sample_network [])) \<and>
   network_dispatch_response sample_dispatch (sample_packet 5) (sample_network []) =
     Some (emit (Log LOG_DEBUG (No_Clients_Dropping_Response (sample_packet 5)))
             (sample_network []))"
  using dispatch_empty_registry_drops [of "sample_network []" sample_dispatch "sample_packet 0"]
        dispatch_empty_registry_drops [of "sample_network []" sample_dispatch "sample_packet 5"]
  by (simp add: sample_network_def sample_packet_def packet_header_get_sequence_number_def)

text \<open>
  C3: a callback (sequence number 0) dispatched to a non-empty registry: one debug message
  with the number of clients, then one forced call for each client, in the order of the
  array; every client is left as its forced call leaves it.
\<close>

theorem dispatch_callback_broadcast:
  assumes "clients s \<noteq> []"
      and "packet_header_get_sequence_number (header response) = 0"
  shows "\<exists>s'. network_dispatch_response cdr response s = Some s' \<and>
           new_events s s' =
             Log LOG_DEBUG (Broadcasting_Callback response (length (clients s))) #
             map (\<lambda>k. Client_Dispatch_Response k response True False) [0..<length (clients s)] \<and>
           clients s' = map (\<lambda>c. snd (cdr c response True False)) (clients s)"
  using assms dispatch_callback_run [where s = s and response = response and cdr = cdr]
  by auto

theorem dispatch_callback_broadcast_witness:
  "\<exists>s'. network_dispatch_response sample_dispatch (sample_packet 0)
          (sample_network [sample_client ''A'' False [], sample_client ''B'' True [3],
                           sample_client ''C'' False [4]]) = Some s' \<and>
        trace s' =
          [Log LOG_DEBUG (Broadcasting_Callback (sample_packet 0) 3),
           Client_Dispatch_Response 0 (sample_packet 0) True False,
           Client_Dispatch_Response 1 (sample_packet 0) True False,
           Client_Dispatch_Response 2 (sample_packet 0) True False]"
proof -
  let ?s = "sample_network [sample_client ''A'' False [], sample_client ''B'' True [3],
                            sample_client ''C'' False [4]]"
  have ne: "clients ?s \<noteq> []" by (simp add: sample_network_def)
  have seq: "packet_header_get_sequence_number (header (sample_packet 0)) = 0"
    by (simp add: sample_packet_def packet_header_get_sequence_number_def)
  from dispatch_callback_broadcast [where cdr = sample_dispatch, OF ne seq] show ?thesis
    by (auto simp: sample_network_def new_events_def upt_rec numeral_2_eq_2 numeral_3_eq_3)
qed

text \<open>
  C1: a response (nonzero sequence number) dispatched to a registry in which the client at
  index \<open>j\<close> is the first whose selective call reports a match: after the debug message,
  the clients at indices \<open>0, \<dots>, j\<close> get one selective call each, in this order, and this
  is all. No client behind \<open>j\<close> is called or changed, and there is no forced call.
\<close>

theorem dispatch_response_first_match_wins:
  assumes "clients s \<noteq> []"
      and "packet_header_get_sequence_number (header response) \<noteq> 0"
      and "j < length (clients s)"
      and "0 < fst (cdr (clients s ! j) response False False)"
      and "\<forall>k<j. fst (cdr (clients s ! k) response False False) \<le> 0"
  shows "\<exists>s'. network_dispatch_response cdr response s = Some s' \<and>
           new_events s s' =
             Log LOG_DEBUG (Dispatching_Response response (length (clients s))) #
             map (\<lambda>k. Client_Dispatch_Response k response False False) [0..<Suc j] \<and>
           length (clients s') = length (clients s) \<and>
           drop (Suc j) (clients s') = drop (Suc j) (clients s)"
  using assms dispatch_match_run [where s = s and response = response and cdr = cdr and j = j]
  by auto

theorem dispatch_response_first_match_wins_witness:
  "\<exists>s'. network_dispatch_response sample_dispatch (sample_packet 7)
          (sample_network [sample_client ''A'' False [], sample_client ''B'' False [7],
                           sample_client ''C'' False [7]]) = Some s' \<and>
        trace s' =
          [Log LOG_DEBUG (Dispatching_Response (sample_packet 7) 3),
           Client_Dispatch_Response 0 (sample_packet 7) False False,
           Client_Dispatch_Response 1 (sample_packet 7) False False]"
proof -
  let ?s = "sample_network [sample_client ''A'' False [], sample_client ''B'' False [7],
                            sample_client ''C'' False [7]]"
  have ne: "clients ?s \<noteq> []" by (simp add: sample_network_def)
  have seq: "packet_header_get_sequence_number (header (sample_packet 7)) \<noteq> 0"
    by (simp add: sample_packet_def packet_header_get_sequence_number_def)
  have j: "1 < length (clients ?s)" by (simp add: sample_network_def)
  have hit: "0 < fst (sample_dispatch (clients ?s ! 1) (sample_packet 7) False False)"
    by (simp add: sample_network_def sample_dispatch_def sample_client_def sample_packet_def)
  have miss: "\<forall>k<1. fst (sample_dispatch (clients ?s ! k) (sample_packet 7) False False) \<le> 0"
    by (simp add: sample_network_def sample_dispatch_def sample_client_def sample_packet_def)
  from dispatch_response_first_match_wins [where cdr = sample_dispatch, OF ne seq j hit miss]
  show ?thesis
    by (auto simp: sample_network_def new_events_def upt_rec numeral_2_eq_2 numeral_3_eq_3)
qed

text \<open>
  C2: a response (nonzero sequence number) dispatched to a non-empty registry in which no
  selective call reports a match: after the selective calls, one warning that carries the
  response is written, and then every client gets one forced call, in the order of the
  array. Every client is left as the selective call followed by the forced call leaves it.
\<close>

theorem dispatch_response_orphan_fallback:
  assumes "clients s \<noteq> []"
      and "packet_header_get_sequence_number (header response) \<noteq> 0"
      and "\<forall>k<length (clients s). fst (cdr (clients s ! k) response False False) \<le> 0"
  shows "\<exists>s'. network_dispatch_response cdr response s = Some s' \<and>
           new_events s s' =
             Log LOG_DEBUG (Dispatching_Response response (length (clients s))) #
             map (\<lambda>k. Client_Dispatch_Response k response False False) [0..<length (clients s)] @
             Log LOG_WARN (Broadcasting_Response_No_Match response) #
             map (\<lambda>k. Client_Dispatch_Response k response True False) [0..<length (clients s)] \<and>
           clients s' =
             map (\<lambda>c. snd (cdr (snd (cdr c response False False)) response True False))
               (clients s)"
  using assms dispatch_orphan_run [where s = s and response = response and cdr = cdr]
  by auto

theorem dispatch_response_orphan_fallback_witness:
  "\<exists>s'. network_dispatch_response sample_dispatch (sample_packet 7)
          (sample_network [sample_client ''A'' False [], sample_client ''B'' False [3]])
          = Some s' \<and>
        trace s' =
          [Log LOG_DEBUG (Dispatching_Response (sample_packet 7) 2),
           Client_Dispatch_Response 0 (sample_packet 7) False False,
           Client_Dispatch_Response 1 (sample_packet 7) False False,
           Log LOG_WARN (Broadcasting_Response_No_Match (sample_packet 7)),
           Client_Dispatch_Response 0 (sample_packet 7) True False,
           Client_Dispatch_Response 1 (sample_packet 7) True False]"
proof -
  let ?s = "sample_network [sample_client ''A'' False [], sample_client ''B'' False [3]]"
  have ne: "clients ?s \<noteq> []" by (simp add: sample_network_def)
  have seq: "packet_header_get_sequence_number (header (sample_packet 7)) \<noteq> 0"
    by (simp add: sample_packet_def packet_header_get_sequence_number_def)
  have miss: "\<forall>k<length (clients ?s).
                fst (sample_dispatch (clients ?s ! k) (sample_packet 7) False False) \<le> 0"
    by (simp add: sample_network_def sample_dispatch_def sample_client_def sample_packet_def
          less_Suc_eq)
  from dispatch_response_orphan_fallback [where cdr = sample_dispatch, OF ne seq miss]
  show ?thesis
    by (auto simp: sample_network_def new_events_def upt_rec numeral_2_eq_2)
qed

text \<open>
  C10: the forced calls of a dispatch (the broadcast of a callback and the fallback for a
  response that no client matches) reach a client whose \<^verbatim>\<open>disconnected\<close> flag is set
  like any other: the client at index \<open>i\<close> gets exactly one forced call.
\<close>

theorem dispatch_forced_reaches_disconnected:
  assumes "i < length (clients s)"
      and "disconnected (clients s ! i)"
      and "packet_header_get_sequence_number (header response) = 0 \<or>
           (\<forall>k<length (clients s). fst (cdr (clients s ! k) response False False) \<le> 0)"
  shows "\<exists>s'. network_dispatch_response cdr response s = Some s' \<and>
           count_list (new_events s s') (Client_Dispatch_Response i response True False) = 1"
proof -
  let ?f = "Client_Dispatch_Response i response True False :: 'a event"
  let ?n = "length (clients s)"
  have ne: "clients s \<noteq> []" using assms(1) by auto
  have forced: "count_list (map (\<lambda>k. Client_Dispatch_Response k response True False :: 'a event)
                              [0..<?n]) ?f = 1"
    using assms(1) by (simp add: forced_calls_count)
  have selective: "count_list (map (\<lambda>k. Client_Dispatch_Response k response False False :: 'a event)
                              [0..<?n]) ?f = 0"
    by (simp add: count_list_0_iff image_iff)
  show ?thesis
  proof (cases "packet_header_get_sequence_number (header response) = 0")
    case True
    from dispatch_callback_run [OF ne True, where cdr = cdr] forced show ?thesis
      by auto
  next
    case False
    with assms(3) have
      "\<forall>k<length (clients s). fst (cdr (clients s ! k) response False False) \<le> 0"
      by simp
    from dispatch_orphan_run [where cdr = cdr, OF ne False this] forced selective show ?thesis
      by auto
  qed
qed

theorem dispatch_forced_reaches_disconnected_witness:
  "\<exists>s'. network_dispatch_response sample_dispatch (sample_packet 0)
          (sample_network [sample_client ''A'' False [], sample_client ''B'' True []])
          = Some s' \<and>
        count_list (trace s') (Client_Dispatch_Response 1 (sample_packet 0) True False) = 1"
proof -
  let ?s = "sample_network [sample_client ''A'' False [], sample_client ''B'' True []]"
  have i: "1 < length (clients ?s)" by (simp add: sample_network_def)
  have d: "disconnected (clients ?s ! 1)" by (simp add: sample_network_def sample_client_def)
  have seq: "packet_header_get_sequence_number (header (sample_packet 0)) = 0 \<or>
             (\<forall>k<length (clients ?s).
                fst (sample_dispatch (clients ?s ! k) (sample_packet 0) False False) \<le> 0)"
    by (simp add: sample_packet_def packet_header_get_sequence_number_def)
  from dispatch_forced_reaches_disconnected [where cdr = sample_dispatch, OF i d seq]
  show ?thesis
    by (auto simp: sample_network_def new_events_def)
qed

section \<open>Properties of the cleanup pass\<close>

lemma trace_emits [simp]: "trace (emits es s) = trace s @ es"
  by (simp add: emits_def)

lemma clients_emits [simp]: "clients (emits es s) = clients s"
  by (simp add: emits_def)

lemma nonce_emits [simp]: "next_authentication_nonce (emits es s) = next_authentication_nonce s"
  by (simp add: emits_def)

lemma destroyed_append [simp]: "destroyed (es @ fs) = destroyed es @ destroyed fs"
  by (induction es rule: destroyed.induct) simp_all

declare cleanup_loop.simps [simp del]

text \<open>Removing the item behind a prefix \<open>p\<close>: the prefix stays, the rest is permuted at most.\<close>

lemma array_remove_behind_prefix:
  "\<exists>q'. array_remove r (p @ x # q) (int (length p)) (Some d) = Some ([d x], p @ q') \<and>
        mset q' = mset q \<and> (r = Shift_Down \<longrightarrow> q' = q)"
proof (cases r)
  case Shift_Down
  then show ?thesis by (simp add: array_remove_def)
next
  case Swap_With_Last
  show ?thesis
  proof (cases "q = []")
    case True
    then show ?thesis using Swap_With_Last
      by (simp add: array_remove_def list_update_append)
  next
    case False
    then have "butlast ((p @ x # q)[length p := last (p @ x # q)]) = p @ last q # butlast q"
      by (simp add: list_update_append butlast_append)
    moreover have "mset (last q # butlast q) = mset q"
      using False by (metis append_butlast_last_id mset_append mset_rev rev.simps(2))
    ultimately show ?thesis using Swap_With_Last
      by (auto simp: array_remove_def)
  qed
qed

lemma cleanup_loop_run:
  "clients s = p @ q \<Longrightarrow> \<forall>c\<in>set q. \<not> disconnected c \<Longrightarrow>
   \<exists>s'. cleanup_loop r (int (length p) - 1) s = Some s' \<and>
        mset (clients s') = mset (filter (\<lambda>c. \<not> disconnected c) p) + mset q \<and>
        (r = Shift_Down \<longrightarrow> clients s' = filter (\<lambda>c. \<not> disconnected c) p @ q) \<and>
        trace s' = trace s @ removal_calls (rev (filter disconnected p)) \<and>
        next_authentication_nonce s' = next_authentication_nonce s"
proof (induction p arbitrary: s q rule: rev_induct)
  case Nil
  then show ?case by (subst cleanup_loop.simps) (simp add: removal_calls_def)
next
  case (snoc x p)
  have cl: "clients s = p @ x # q" using snoc.prems(1) by simp
  have get: "array_get (clients s) (int (length p)) = Some x"
    using cl by (simp add: array_get_def)
  show ?case
  proof (cases "disconnected x")
    case True
    obtain q' where rm:
      "array_remove r (clients s) (int (length p)) (Some Client_Destroy)
         = Some ([Client_Destroy x], p @ q')"
      "mset q' = mset q" "r = Shift_Down \<longrightarrow> q' = q"
      using array_remove_behind_prefix [of r p x q Client_Destroy] cl by auto
    let ?s1 = "emits [Client_Destroy x]
                 ((emit (Log LOG_DEBUG (Removing_Disconnected_Client x)) s)\<lparr>clients := p @ q'\<rparr>)"
    have step: "cleanup_loop r (int (length (p @ [x])) - 1) s
                  = cleanup_loop r (int (length p) - 1) ?s1"
      using get rm(1) True by (subst cleanup_loop.simps) simp
    have "clients ?s1 = p @ q'" by simp
    moreover have "\<forall>c\<in>set q'. \<not> disconnected c"
      using snoc.prems(2) rm(2) by (metis set_mset_mset)
    ultimately obtain s' where r:
      "cleanup_loop r (int (length p) - 1) ?s1 = Some s'"
      "mset (clients s') = mset (filter (\<lambda>c. \<not> disconnected c) p) + mset q'"
      "r = Shift_Down \<longrightarrow> clients s' = filter (\<lambda>c. \<not> disconnected c) p @ q'"
      "trace s' = trace ?s1 @ removal_calls (rev (filter disconnected p))"
      "next_authentication_nonce s' = next_authentication_nonce ?s1"
      using snoc.IH [of ?s1 q'] by blast
    show ?thesis
      using step r rm(2,3) True by (simp add: removal_calls_def)
  next
    case False
    have step: "cleanup_loop r (int (length (p @ [x])) - 1) s
                  = cleanup_loop r (int (length p) - 1) s"
      using get False by (subst cleanup_loop.simps) simp
    have "\<forall>c\<in>set (x # q). \<not> disconnected c" using snoc.prems(2) False by simp
    with cl obtain s' where r:
      "cleanup_loop r (int (length p) - 1) s = Some s'"
      "mset (clients s') = mset (filter (\<lambda>c. \<not> disconnected c) p) + mset (x # q)"
      "r = Shift_Down \<longrightarrow> clients s' = filter (\<lambda>c. \<not> disconnected c) p @ x # q"
      "trace s' = trace s @ removal_calls (rev (filter disconnected p))"
      "next_authentication_nonce s' = next_authentication_nonce s"
      using snoc.IH [of s "x # q"] by blast
    show ?thesis using step r False by simp
  qed
qed

lemma destroyed_removal_calls [simp]: "destroyed (removal_calls cs) = cs"
  by (induction cs) (simp_all add: removal_calls_def)

text \<open>
  C4: one call of \<^verbatim>\<open>network_cleanup_clients\<close>, whatever the positions of the
  disconnected clients and whichever way \<^verbatim>\<open>array_remove\<close> closes a gap, reads and
  removes inside the array only and leaves exactly the clients whose \<^verbatim>\<open>disconnected\<close>
  flag is not set (in their old order when the gap is closed by moving the items down).
  \<^verbatim>\<open>client_destroy\<close> is called on exactly the clients whose flag is set, once each, from
  the back of the array to the front.
\<close>

theorem cleanup_removes_exactly_disconnected:
  "\<exists>s'. network_cleanup_clients r s = Some s' \<and>
        mset (clients s') = mset (filter (\<lambda>c. \<not> disconnected c) (clients s)) \<and>
        (r = Shift_Down \<longrightarrow> clients s' = filter (\<lambda>c. \<not> disconnected c) (clients s)) \<and>
        destroyed (new_events s s') = rev (filter disconnected (clients s))"
proof -
  obtain s' where r:
      "cleanup_loop r (int (length (clients s)) - 1) s = Some s'"
      "mset (clients s') = mset (filter (\<lambda>c. \<not> disconnected c) (clients s)) + mset []"
      "r = Shift_Down \<longrightarrow> clients s' = filter (\<lambda>c. \<not> disconnected c) (clients s) @ []"
      "trace s' = trace s @ removal_calls (rev (filter disconnected (clients s)))"
    using cleanup_loop_run [of s "clients s" "[]" r] by auto
  then show ?thesis by (simp add: network_cleanup_clients_def)
qed

theorem cleanup_removes_exactly_disconnected_witness:
  "\<exists>s'. network_cleanup_clients Swap_With_Last
          (sample_network [sample_client ''A'' True [], sample_client ''B'' False [],
                           sample_client ''C'' True [], sample_client ''D'' False []]) = Some s' \<and>
        mset (clients s') = {#sample_client ''B'' False [], sample_client ''D'' False []#} \<and>
        destroyed (trace s') = [sample_client ''C'' True [], sample_client ''A'' True []]"
  using cleanup_removes_exactly_disconnected
          [of Swap_With_Last
              "sample_network [sample_client ''A'' True [], sample_client ''B'' False [],
                               sample_client ''C'' True [], sample_client ''D'' False []]"]
  by (auto simp: sample_network_def sample_client_def new_events_def)

section \<open>Properties of session creation and the nonce counter\<close>

lemma issued_nonces_append [simp]:
  "issued_nonces (es @ fs) = issued_nonces es @ issued_nonces fs"
  by (induction es rule: issued_nonces.induct) simp_all

lemma array_remove_last:
  "array_remove r (xs @ [x]) (int (length xs)) None = Some ([], xs)"
  by (cases r) (simp_all add: array_remove_def)

lemma create_client_alloc_fails:
  "network_create_client r cc None n h s =
     (None, emit (Log LOG_ERROR Could_Not_Append_To_Client_Array) s)"
  by (simp add: network_create_client_def array_append_def)

lemma create_client_create_fails:
  assumes "fst (cc slot n h (next_authentication_nonce s)) < 0"
  shows "network_create_client r cc (Some slot) n h s =
           (None, s\<lparr>next_authentication_nonce := next_authentication_nonce s + 1,
                    trace := trace s @ [Client_Create n h (next_authentication_nonce s)]\<rparr>)"
proof -
  obtain rc c' where cd: "cc slot n h (next_authentication_nonce s) = (rc, c')"
    by (cases "cc slot n h (next_authentication_nonce s)")
  with assms have "rc < 0" by simp
  then show ?thesis
    using cd
    by (simp add: network_create_client_def array_append_def Let_def emit_def emits_def
          array_remove_last)
qed

lemma create_client_succeeds:
  assumes "\<not> fst (cc slot n h (next_authentication_nonce s)) < 0"
  shows "network_create_client r cc (Some slot) n h s =
           (Some (snd (cc slot n h (next_authentication_nonce s))),
            s\<lparr>clients := clients s @ [snd (cc slot n h (next_authentication_nonce s))],
              next_authentication_nonce := next_authentication_nonce s + 1,
              trace := trace s @
                [Client_Create n h (next_authentication_nonce s),
                 Log LOG_INFO (Added_New_Client (snd (cc slot n h (next_authentication_nonce s))))]\<rparr>)"
proof -
  obtain rc c' where cd: "cc slot n h (next_authentication_nonce s) = (rc, c')"
    by (cases "cc slot n h (next_authentication_nonce s)")
  with assms have "\<not> rc < 0" by simp
  then show ?thesis
    using cd
    by (simp add: network_create_client_def array_append_def Let_def emit_def)
qed

lemma create_client_step:
  "\<exists>es. trace (snd (network_create_client r cc alloc n h s)) = trace s @ es \<and>
        issued_nonces es = (if alloc = None then [] else [next_authentication_nonce s]) \<and>
        next_authentication_nonce (snd (network_create_client r cc alloc n h s)) =
          (if alloc = None then next_authentication_nonce s
           else next_authentication_nonce s + 1)"
proof (cases alloc)
  case None
  then show ?thesis by (simp add: create_client_alloc_fails)
next
  case (Some slot)
  show ?thesis
  proof (cases "fst (cc slot n h (next_authentication_nonce s)) < 0")
    case True
    then show ?thesis using Some by (simp add: create_client_create_fails)
  next
    case False
    then show ?thesis using Some by (simp add: create_client_succeeds)
  qed
qed

lemma nonce_run_Cons:
  "map (\<lambda>k. n + of_nat k) [0..<Suc m] = (n :: uint32) # map (\<lambda>k. (n + 1) + of_nat k) [0..<m]"
proof -
  have "[0..<Suc m] = 0 # map Suc [0..<m]"
    by (metis map_Suc_upt upt_conv_Cons zero_less_Suc)
  then show ?thesis
    by (simp only: list.map map_map comp_def) (simp add: add.assoc)
qed

lemma create_clients_run:
  "\<exists>es. trace (create_clients r cc reqs s) = trace s @ es \<and>
        issued_nonces es =
          map (\<lambda>k. next_authentication_nonce s + of_nat k) [0..<attempts reqs] \<and>
        next_authentication_nonce (create_clients r cc reqs s) =
          next_authentication_nonce s + of_nat (attempts reqs)"
proof (induction reqs arbitrary: s)
  case Nil
  then show ?case by (simp add: attempts_def)
next
  case (Cons q reqs)
  obtain alloc n h where q: "q = (alloc, n, h)" by (cases q)
  let ?s1 = "snd (network_create_client r cc alloc n h s)"
  obtain es where e: "trace ?s1 = trace s @ es"
    "issued_nonces es = (if alloc = None then [] else [next_authentication_nonce s])"
    "next_authentication_nonce ?s1 =
       (if alloc = None then next_authentication_nonce s else next_authentication_nonce s + 1)"
    using create_client_step [of r cc alloc n h s] by blast
  obtain fs where f: "trace (create_clients r cc reqs ?s1) = trace ?s1 @ fs"
    "issued_nonces fs =
       map (\<lambda>k. next_authentication_nonce ?s1 + of_nat k) [0..<attempts reqs]"
    "next_authentication_nonce (create_clients r cc reqs ?s1) =
       next_authentication_nonce ?s1 + of_nat (attempts reqs)"
    using Cons.IH [of ?s1] by blast
  have "trace (create_clients r cc (q # reqs) s) = trace s @ (es @ fs)"
    using q e(1) f(1) by simp
  moreover have "issued_nonces (es @ fs) =
      map (\<lambda>k. next_authentication_nonce s + of_nat k) [0..<attempts (q # reqs)]"
  proof (cases alloc)
    case None
    then show ?thesis using q e(2,3) f(2) by (simp add: attempts_def)
  next
    case (Some slot)
    then have "attempts (q # reqs) = Suc (attempts reqs)" using q by (simp add: attempts_def)
    then show ?thesis using Some e(2,3) f(2) by (simp only: nonce_run_Cons) simp
  qed
  moreover have "next_authentication_nonce (create_clients r cc (q # reqs) s) =
      next_authentication_nonce s + of_nat (attempts (q # reqs))"
    using q e(3) f(3) by (cases alloc) (simp_all add: attempts_def)
  ultimately show ?case by blast
qed

lemma nonce_run_distinct:
  "distinct (map (\<lambda>k. (n :: uint32) + of_nat k) [0..<m]) \<longleftrightarrow> m \<le> 2 ^ 32"
proof
  assume d: "distinct (map (\<lambda>k. n + of_nat k) [0..<m])"
  show "m \<le> 2 ^ 32"
  proof (rule ccontr)
    assume "\<not> m \<le> 2 ^ 32"
    then have m: "(2 :: nat) ^ 32 < m" by simp
    have inj: "inj_on (\<lambda>k. n + of_nat k) {0..<m}"
      using d by (simp add: distinct_map)
    have "n + of_nat (0 :: nat) = n + of_nat ((2 :: nat) ^ 32)"
      using of_nat_2p [where 'a = 32] by simp
    with inj m have "(0 :: nat) = 2 ^ 32"
      by (auto dest!: inj_onD [where x = 0 and y = "2 ^ 32"])
    then show False by simp
  qed
next
  assume m: "m \<le> 2 ^ 32"
  have "inj_on (\<lambda>k. n + of_nat k) {0..<m}"
  proof (rule inj_onI)
    fix x y
    assume x: "x \<in> {0..<m}" and y: "y \<in> {0..<m}"
      and eq: "n + of_nat x = n + of_nat y"
    from eq have "(of_nat x :: uint32) = of_nat y" by simp
    then have "take_bit 32 x = take_bit 32 y" by (simp add: word_of_nat_eq_iff)
    moreover have "x < 2 ^ 32" "y < 2 ^ 32" using x y m by auto
    ultimately show "x = y" by (simp add: take_bit_nat_eq_self)
  qed
  then show "distinct (map (\<lambda>k. n + of_nat k) [0..<m])"
    by (simp add: distinct_map)
qed

text \<open>
  C5: over any sequence of session creations, the nonces handed to
  \<^verbatim>\<open>client_create\<close> are the counter value at the start, then that value plus 1, plus
  2 and so on in 32-bit arithmetic, one for each creation that gets its slot; the counter
  ends that many steps further. These nonces are pairwise different exactly as long as
  there are at most \<open>2 ^ 32\<close> of them.
\<close>

theorem nonces_issued_in_sequence:
  "issued_nonces (new_events s (create_clients r cc reqs s)) =
     map (\<lambda>k. next_authentication_nonce s + of_nat k) [0..<attempts reqs] \<and>
   (distinct (issued_nonces (new_events s (create_clients r cc reqs s)))
      \<longleftrightarrow> attempts reqs \<le> 2 ^ 32) \<and>
   next_authentication_nonce (create_clients r cc reqs s) =
     next_authentication_nonce s + of_nat (attempts reqs)"
proof -
  obtain es where e: "trace (create_clients r cc reqs s) = trace s @ es"
    "issued_nonces es =
       map (\<lambda>k. next_authentication_nonce s + of_nat k) [0..<attempts reqs]"
    "next_authentication_nonce (create_clients r cc reqs s) =
       next_authentication_nonce s + of_nat (attempts reqs)"
    using create_clients_run [of r cc reqs s] by blast
  have "new_events s (create_clients r cc reqs s) = es" using e(1) by simp
  then show ?thesis using e(2,3) by (simp add: nonce_run_distinct)
qed

theorem nonces_issued_in_sequence_witness:
  "issued_nonces (new_events
      ((sample_network [])\<lparr>next_authentication_nonce := 4294967295\<rparr>)
      (create_clients Shift_Down sample_create
         [(Some (sample_client [] False []), ''A'', 4),
          (None, ''B'', 5),
          (Some (sample_client [] False []), ''C'', 6),
          (Some (sample_client [] False []), ''D'', 7)]
         ((sample_network [])\<lparr>next_authentication_nonce := 4294967295\<rparr>)))
     = [4294967295, 0, 1]"
  using nonces_issued_in_sequence
          [of "(sample_network [])\<lparr>next_authentication_nonce := 4294967295\<rparr>"
              Shift_Down sample_create
              "[(Some (sample_client [] False []), ''A'', 4),
                (None, ''B'', 5),
                (Some (sample_client [] False []), ''C'', 6),
                (Some (sample_client [] False []), ''D'', 7)]"]
  by (simp add: attempts_def sample_network_def upt_rec)

text \<open>
  C9: when \<^verbatim>\<open>client_create\<close> fails, \<^verbatim>\<open>network_create_client\<close> returns
  \<^verbatim>\<open>NULL\<close> and leaves the state as it was (the appended slot is removed again),
  but for the nonce counter, which is one further, and the call of
  \<^verbatim>\<open>client_create\<close> in the trace. The creation that follows is therefore handed the
  nonce after the one that the failed creation used up.
\<close>

theorem failed_creation_consumes_nonce:
  assumes "fst (cc slot n h (next_authentication_nonce s)) < 0"
  shows "network_create_client r cc (Some slot) n h s =
           (None, s\<lparr>next_authentication_nonce := next_authentication_nonce s + 1,
                    trace := trace s @ [Client_Create n h (next_authentication_nonce s)]\<rparr>) \<and>
         clients (snd (network_create_client r cc (Some slot) n h s)) = clients s \<and>
         issued_nonces
           (new_events (snd (network_create_client r cc (Some slot) n h s))
              (snd (network_create_client r cc (Some slot') n' h'
                      (snd (network_create_client r cc (Some slot) n h s)))))
           = [next_authentication_nonce s + 1]"
proof -
  let ?s1 = "s\<lparr>next_authentication_nonce := next_authentication_nonce s + 1,
               trace := trace s @ [Client_Create n h (next_authentication_nonce s)]\<rparr>"
  have first: "network_create_client r cc (Some slot) n h s = (None, ?s1)"
    using assms by (rule create_client_create_fails)
  obtain es where e:
    "trace (snd (network_create_client r cc (Some slot') n' h' ?s1)) = trace ?s1 @ es"
    "issued_nonces es = [next_authentication_nonce ?s1]"
    using create_client_step [of r cc "Some slot'" n' h' ?s1] by auto
  have "new_events ?s1 (snd (network_create_client r cc (Some slot') n' h' ?s1)) = es"
    using e(1) by (rule new_events_append)
  then show ?thesis using first e(2) by simp
qed

theorem failed_creation_consumes_nonce_witness:
  "network_create_client Shift_Down sample_create (Some (sample_client [] False [])) [] 9
     (sample_network [sample_client ''A'' False []])
   = (None, (sample_network [sample_client ''A'' False []])
              \<lparr>next_authentication_nonce := 1, trace := [Client_Create [] 9 0]\<rparr>) \<and>
   map authentication_nonce
     (clients (create_clients Shift_Down sample_create
                 [(Some (sample_client [] False []), ''B'', 4),
                  (Some (sample_client [] False []), [], 5),
                  (Some (sample_client [] False []), ''C'', 6)]
                 (sample_network [])))
   = [0, 2]"
proof -
  let ?s = "sample_network [sample_client ''A'' False []]"
  have fails: "fst (sample_create (sample_client [] False []) [] 9
                     (next_authentication_nonce ?s)) < 0"
    by (simp add: sample_create_def)
  have "network_create_client Shift_Down sample_create (Some (sample_client [] False [])) [] 9 ?s
          = (None, ?s\<lparr>next_authentication_nonce := 1, trace := [Client_Create [] 9 0]\<rparr>)"
    using failed_creation_consumes_nonce
            [where cc = sample_create and slot = "sample_client [] False []" and n = "[]"
               and h = 9 and s = "?s" and r = Shift_Down, OF fails]
    by (simp add: sample_network_def)
  moreover have "map authentication_nonce
     (clients (create_clients Shift_Down sample_create
                 [(Some (sample_client [] False []), ''B'', 4),
                  (Some (sample_client [] False []), [], 5),
                  (Some (sample_client [] False []), ''C'', 6)]
                 (sample_network []))) = [0, 2]"
    by (simp add: create_client_create_fails create_client_succeeds sample_create_def
          sample_network_def)
  ultimately show ?thesis by simp
qed

section \<open>Properties of the socket opener and of initialisation\<close>

lemma acquired_simps [simp]:
  "acquired [] = []"
  "acquired (e # es) = (case acquires e of None \<Rightarrow> acquired es | Some r \<Rightarrow> r # acquired es)"
  by (simp_all add: acquired_def split: option.split)

lemma released_simps [simp]:
  "released [] = []"
  "released (e # es) = (case releases e of None \<Rightarrow> released es | Some r \<Rightarrow> r # released es)"
  by (simp_all add: released_def split: option.split)

lemma open_cleanup_simps:
  "open_cleanup sock 0 s = (- 1, s)"
  "open_cleanup sock 1 s = (- 1, emit Freeaddrinfo s)"
  "open_cleanup sock 2 s = (- 1, emit Freeaddrinfo (emit (Socket_Destroy sock) s))"
  "open_cleanup sock 3 s = (0, s)"
  by (simp_all add: open_cleanup_def)

lemma open_bind_listen_result:
  "fst (open_bind_listen win32 cfg env sock port ai s) =
     (if (\<not> win32 \<longrightarrow> 0 \<le> socket_set_address_reuse env) \<and> 0 \<le> socket_bind env \<and>
         0 \<le> socket_listen env \<and> 0 \<le> event_add_source env then 0 else - 1)"
  by (simp add: open_bind_listen_def open_cleanup_simps Let_def)

lemma open_server_socket_result:
  "fst (network_open_server_socket win32 cfg env sock port s) =
     (if all_steps_succeed win32 env then 0 else - 1)"
  by (auto simp: network_open_server_socket_def all_steps_succeed_def open_cleanup_simps
        open_bind_listen_result Let_def split: option.splits)

lemma open_server_socket_acquired:
  "acquired (new_events s (snd (network_open_server_socket win32 cfg env sock port s))) =
     (case socket_hostname_to_address env of
        None \<Rightarrow> []
      | Some resolved_address \<Rightarrow>
          if socket_create env < 0 then [Resolved_Address]
          else [Resolved_Address, Socket_Resource sock])"
  by (simp add: network_open_server_socket_def open_bind_listen_def open_cleanup_simps
        Let_def new_events_def split: option.splits)

lemma open_server_socket_released:
  "released (new_events s (snd (network_open_server_socket win32 cfg env sock port s))) =
     (if all_steps_succeed win32 env then [Resolved_Address]
      else (case socket_hostname_to_address env of
              None \<Rightarrow> []
            | Some resolved_address \<Rightarrow>
                if socket_create env < 0 then [Resolved_Address]
                else [Socket_Resource sock, Resolved_Address]))"
  by (simp add: network_open_server_socket_def open_bind_listen_def open_cleanup_simps
        all_steps_succeed_def Let_def new_events_def split: option.splits)

lemma open_server_socket_track:
  "track [] (new_events s (snd (network_open_server_socket win32 cfg env sock port s))) =
     Some (if all_steps_succeed win32 env then [Socket_Resource sock] else [])"
  by (simp add: network_open_server_socket_def open_bind_listen_def open_cleanup_simps
        all_steps_succeed_def Let_def new_events_def split: option.splits)

lemma open_server_socket_frame:
  "clients (snd (network_open_server_socket win32 cfg env sock port s)) = clients s \<and>
   server_socket_plain_open (snd (network_open_server_socket win32 cfg env sock port s))
     = server_socket_plain_open s \<and>
   server_socket_websocket_open (snd (network_open_server_socket win32 cfg env sock port s))
     = server_socket_websocket_open s \<and>
   next_authentication_nonce (snd (network_open_server_socket win32 cfg env sock port s))
     = next_authentication_nonce s"
  by (simp add: network_open_server_socket_def open_bind_listen_def open_cleanup_simps
        Let_def split: option.splits)

text \<open>
  C6: one call of \<^verbatim>\<open>network_open_server_socket\<close> returns 0 when every step it
  executes succeeds and -1 otherwise. The resources it acquires are the resolved address
  (when the resolution succeeds) and then the socket (when \<^verbatim>\<open>socket_create\<close>
  succeeds). When it fails, at whichever step, it releases exactly the resources acquired
  so far, in the reverse order; when it succeeds it releases the resolved address and
  keeps the socket. On every path no resource is released while it is not held, so none
  is released twice or without having been acquired.
\<close>

theorem open_server_socket_staged_rollback:
  assumes "network_open_server_socket win32 cfg env sock port s = (rc, s')"
  shows "(rc = 0 \<or> rc = - 1) \<and>
         (rc = 0 \<longleftrightarrow> all_steps_succeed win32 env) \<and>
         acquired (new_events s s') =
           (case socket_hostname_to_address env of
              None \<Rightarrow> []
            | Some resolved_address \<Rightarrow>
                if socket_create env < 0 then [Resolved_Address]
                else [Resolved_Address, Socket_Resource sock]) \<and>
         (rc \<noteq> 0 \<longrightarrow> released (new_events s s') = rev (acquired (new_events s s'))) \<and>
         (rc = 0 \<longrightarrow> released (new_events s s') = [Resolved_Address]) \<and>
         track [] (new_events s s') = Some (if rc = 0 then [Socket_Resource sock] else [])"
proof -
  have rc: "rc = (if all_steps_succeed win32 env then 0 else - 1)"
    using assms open_server_socket_result [of win32 cfg env sock port s] by simp
  have s': "s' = snd (network_open_server_socket win32 cfg env sock port s)"
    using assms by simp
  have a: "acquired (new_events s s') =
           (case socket_hostname_to_address env of
              None \<Rightarrow> []
            | Some resolved_address \<Rightarrow>
                if socket_create env < 0 then [Resolved_Address]
                else [Resolved_Address, Socket_Resource sock])"
    unfolding s' by (rule open_server_socket_acquired)
  have r: "released (new_events s s') =
     (if all_steps_succeed win32 env then [Resolved_Address]
      else (case socket_hostname_to_address env of
              None \<Rightarrow> []
            | Some resolved_address \<Rightarrow>
                if socket_create env < 0 then [Resolved_Address]
                else [Socket_Resource sock, Resolved_Address]))"
    unfolding s' by (rule open_server_socket_released)
  have t: "track [] (new_events s s') =
     Some (if all_steps_succeed win32 env then [Socket_Resource sock] else [])"
    unfolding s' by (rule open_server_socket_track)
  have "rc \<noteq> 0 \<longrightarrow> released (new_events s s') = rev (acquired (new_events s s'))"
    using rc a r by (simp split: option.splits)
  moreover have "rc = 0 \<longrightarrow> released (new_events s s') = [Resolved_Address]"
    using rc r by simp
  moreover have "track [] (new_events s s') = Some (if rc = 0 then [Socket_Resource sock] else [])"
    using rc t by simp
  ultimately show ?thesis using rc a by simp
qed

theorem open_server_socket_staged_rollback_witness:
  "fst (network_open_server_socket False sample_config (sample_env\<lparr>socket_bind := - 1\<rparr>)
          Server_Socket_Plain 4223 initial_network) = - 1 \<and>
   released (trace (snd (network_open_server_socket False sample_config
                           (sample_env\<lparr>socket_bind := - 1\<rparr>)
                           Server_Socket_Plain 4223 initial_network)))
     = [Socket_Resource Server_Socket_Plain, Resolved_Address] \<and>
   fst (network_open_server_socket False sample_config sample_env
          Server_Socket_Plain 4223 initial_network) = 0 \<and>
   released (trace (snd (network_open_server_socket False sample_config sample_env
                           Server_Socket_Plain 4223 initial_network)))
     = [Resolved_Address]"
proof -
  let ?bad = "network_open_server_socket False sample_config (sample_env\<lparr>socket_bind := - 1\<rparr>)
                Server_Socket_Plain 4223 initial_network"
  let ?good = "network_open_server_socket False sample_config sample_env
                Server_Socket_Plain 4223 initial_network"
  have bad: "\<not> all_steps_succeed False (sample_env\<lparr>socket_bind := - 1\<rparr>)"
    by (simp add: all_steps_succeed_def sample_env_def)
  have good: "all_steps_succeed False sample_env"
    by (simp add: all_steps_succeed_def sample_env_def)
  have e: "new_events initial_network s' = trace s'" for s' :: "(8 word list) network"
    by (simp add: new_events_def initial_network_def)
  have h: "socket_hostname_to_address sample_env
             = Some \<lparr>ai_family = AF_INET6, ai_socktype = 1, ai_protocol = 6\<rparr>"
          "\<not> socket_create sample_env < 0"
    by (simp_all add: sample_env_def)
  have "?bad = (fst ?bad, snd ?bad)" by simp
  from open_server_socket_staged_rollback [OF this] bad
  have 1: "fst ?bad = - 1 \<and>
           released (trace (snd ?bad)) = [Socket_Resource Server_Socket_Plain, Resolved_Address]"
    by (auto simp: e h)
  have "?good = (fst ?good, snd ?good)" by simp
  from open_server_socket_staged_rollback [OF this] good
  have 2: "fst ?good = 0 \<and> released (trace (snd ?good)) = [Resolved_Address]"
    by (auto simp: e)
  from 1 2 show ?thesis by simp
qed

lemma open_server_socket_cases:
  assumes "network_open_server_socket win32 cfg env sock port s = (rc, s')"
  shows "rc = (if all_steps_succeed win32 env then 0 else - 1) \<and>
         clients s' = clients s \<and>
         server_socket_plain_open s' = server_socket_plain_open s \<and>
         server_socket_websocket_open s' = server_socket_websocket_open s \<and>
         (\<exists>es. trace s' = trace s @ es)"
proof -
  have "rc = fst (network_open_server_socket win32 cfg env sock port s)"
       "s' = snd (network_open_server_socket win32 cfg env sock port s)"
    using assms by simp_all
  moreover have "\<exists>es. trace (snd (network_open_server_socket win32 cfg env sock port s))
                   = trace s @ es"
    by (simp add: network_open_server_socket_def open_bind_listen_def open_cleanup_simps
        Let_def split: option.splits)
  ultimately show ?thesis
    using open_server_socket_result [of win32 cfg env sock port s]
          open_server_socket_frame [of win32 cfg env sock port s]
    by simp
qed

text \<open>
  C7: started from the statics as their initialisers leave them, \<^verbatim>\<open>network_init\<close>
  returns 0 exactly when it leaves at least one listener open, and -1 otherwise. The plain
  listener is open afterwards exactly when the client array was created and every step of
  opening the plain socket succeeded; the WebSocket listener exactly when, in addition to
  the array, its port is not 0 and every step of opening it succeeded. When the array was
  created and no listener opened, the last call is the \<^verbatim>\<open>array_destroy\<close> of the
  (empty) client array that the same call created.
\<close>

theorem init_succeeds_iff_a_listener_opens:
  assumes "\<not> server_socket_plain_open s" and "\<not> server_socket_websocket_open s"
      and "network_init win32 cfg random array_create env_plain env_websocket s = (rc, s')"
  shows "(rc = 0 \<or> rc = - 1) \<and>
         (rc = 0 \<longleftrightarrow> server_socket_plain_open s' \<or> server_socket_websocket_open s') \<and>
         (server_socket_plain_open s' \<longleftrightarrow>
            0 \<le> array_create \<and> all_steps_succeed win32 env_plain) \<and>
         (server_socket_websocket_open s' \<longleftrightarrow>
            0 \<le> array_create \<and> (word_of_int (listen_websocket_port cfg) :: uint16) \<noteq> 0 \<and>
            all_steps_succeed win32 env_websocket) \<and>
         (0 \<le> array_create \<and> rc \<noteq> 0 \<longrightarrow>
            Array_Create \<in> set (new_events s s') \<and> clients s' = [] \<and>
            last (trace s') = Array_Destroy [])"
proof (cases "array_create < 0")
  case True
  then show ?thesis
    using assms by (auto simp: network_init_def Let_def split: if_splits)
next
  case False
  let ?s4 = "(emit Array_Create
               (if authentication_secret cfg \<noteq> None
                then (emit (Log LOG_INFO Authentication_Is_Enabled)
                        (emit (Log LOG_DEBUG Initializing_Network_Subsystem) s))
                       \<lparr>next_authentication_nonce := random\<rparr>
                else emit (Log LOG_DEBUG Initializing_Network_Subsystem) s))\<lparr>clients := []\<rparr>"
  obtain rc_plain s5 where p:
    "network_open_server_socket win32 cfg env_plain Server_Socket_Plain
       (word_of_int (listen_plain_port cfg)) ?s4 = (rc_plain, s5)"
    by (cases "network_open_server_socket win32 cfg env_plain Server_Socket_Plain
                 (word_of_int (listen_plain_port cfg)) ?s4")
  let ?s6 = "if rc_plain \<ge> 0 then s5\<lparr>server_socket_plain_open := True\<rparr> else s5"
  let ?s7 = "if authentication_secret cfg = None
             then emit (Log LOG_WARN WebSocket_Without_Authentication) ?s6 else ?s6"
  obtain rc_websocket s8 where w:
    "network_open_server_socket win32 cfg env_websocket Server_Socket_Websocket
       (word_of_int (listen_websocket_port cfg)) ?s7 = (rc_websocket, s8)"
    by (cases "network_open_server_socket win32 cfg env_websocket Server_Socket_Websocket
                 (word_of_int (listen_websocket_port cfg)) ?s7")
  note pf = open_server_socket_cases [OF p]
  note wf = open_server_socket_cases [OF w]
  obtain es where es: "trace s5 = trace ?s4 @ es" using pf by blast
  obtain fs where fs: "trace s8 = trace ?s7 @ fs" using wf by blast
  have created: "Array_Create \<in> set (drop (length (trace s)) (trace s5))"
    using es by simp
  have created': "Array_Create \<in> set (drop (length (trace s)) (trace s8))"
    using es fs by (auto simp: emit_def)
  show ?thesis
    using assms False p w pf wf created created'
    by (auto simp: network_init_def Let_def new_events_def split: if_splits)
qed

theorem init_succeeds_iff_a_listener_opens_witness:
  "fst (network_init False sample_config 0 0 sample_env (sample_env\<lparr>socket_listen := - 1\<rparr>)
          initial_network) = 0 \<and>
   fst (network_init False (sample_config\<lparr>listen_websocket_port := 0\<rparr>) 0 0
          (sample_env\<lparr>socket_bind := - 1\<rparr>) sample_env initial_network) = - 1 \<and>
   last (trace (snd (network_init False (sample_config\<lparr>listen_websocket_port := 0\<rparr>) 0 0
                       (sample_env\<lparr>socket_bind := - 1\<rparr>) sample_env initial_network)))
     = Array_Destroy []"
proof -
  let ?a = "network_init False sample_config 0 0 sample_env (sample_env\<lparr>socket_listen := - 1\<rparr>)
              initial_network"
  let ?b = "network_init False (sample_config\<lparr>listen_websocket_port := 0\<rparr>) 0 0
              (sample_env\<lparr>socket_bind := - 1\<rparr>) sample_env initial_network"
  have f1: "\<not> server_socket_plain_open initial_network"
    and f2: "\<not> server_socket_websocket_open initial_network"
    by (simp_all add: initial_network_def)
  have good: "all_steps_succeed False sample_env"
    by (simp add: all_steps_succeed_def sample_env_def)
  have bad: "\<not> all_steps_succeed False (sample_env\<lparr>socket_bind := - 1\<rparr>)"
    by (simp add: all_steps_succeed_def sample_env_def)
  have port: "(word_of_int (listen_websocket_port (sample_config\<lparr>listen_websocket_port := 0\<rparr>))
                :: uint16) = 0"
    by simp
  have "?a = (fst ?a, snd ?a)" by simp
  from init_succeeds_iff_a_listener_opens [OF f1 f2 this] good
  have 1: "fst ?a = 0" by auto
  have "?b = (fst ?b, snd ?b)" by simp
  from init_succeeds_iff_a_listener_opens [OF f1 f2 this] bad port
  have 2: "fst ?b = - 1 \<and> last (trace (snd ?b)) = Array_Destroy []" by auto
  from 1 2 show ?thesis by simp
qed

end
